theory Spec2Isabelle
  imports Main "HOL-Library.AList"
begin

section \<open>The filesystem and the codec\<close>

text \<open>
  \<^verbatim>\<open>dalee_cleanup.py\<close> talks to the operating system through \<^verbatim>\<open>os.path.exists\<close>,
  \<^verbatim>\<open>os.path.isdir\<close>, \<^verbatim>\<open>os.path.join\<close>, \<^verbatim>\<open>os.mkdir\<close>, \<^verbatim>\<open>os.scandir\<close> and
  \<^verbatim>\<open>os.remove\<close>, and to PIL through \<^verbatim>\<open>Image.open(..).convert('RGB')\<close> and
  \<^verbatim>\<open>Image.save\<close>. The filesystem is a finite table from path strings to nodes, in the
  order in which a directory scan yields them. A path exists when the table has it; paths
  are compared as strings. A file either holds an image the codec can decode (the number
  stands for its pixels) or anything else. Faults of the environment that the table cannot
  express (permissions, a full disk) are not part of the model.
\<close>

datatype content = Decodable nat | Undecodable

datatype node = Dir | File content

type_synonym fs = "(string \<times> node) list"

datatype error =
    OSError
  | FileNotFoundError
  | NotADirectoryError
  | IsADirectoryError
  | FileExistsError
  | UnidentifiedImageError
  | IndexError
  | StopIteration
  | RecursionError

definition exists :: "fs \<Rightarrow> string \<Rightarrow> bool" where
  "exists fs p = (map_of fs p \<noteq> None)"

definition isdir :: "fs \<Rightarrow> string \<Rightarrow> bool" where
  "isdir fs p = (map_of fs p = Some Dir)"

text \<open>\<^verbatim>\<open>os.path.join(a, b)\<close> on POSIX, for two components.\<close>

definition join :: "string \<Rightarrow> string \<Rightarrow> string" where
  "join a b =
     (if b \<noteq> [] \<and> hd b = CHR ''/'' then b
      else if a = [] \<or> last a = CHR ''/'' then a @ b
      else a @ ''/'' @ b)"

definition mkdir :: "fs \<Rightarrow> string \<Rightarrow> error + fs" where
  "mkdir fs p = (if exists fs p then Inl FileExistsError else Inr (fs @ [(p, Dir)]))"

definition remove :: "fs \<Rightarrow> string \<Rightarrow> error + fs" where
  "remove fs p =
     (case map_of fs p of
        None \<Rightarrow> Inl FileNotFoundError
      | Some Dir \<Rightarrow> Inl IsADirectoryError
      | Some (File c) \<Rightarrow> Inr (filter (\<lambda>(q, n). q \<noteq> p) fs))"

record dir_entry =
  name :: string
  path :: string

fun strip_prefix :: "string \<Rightarrow> string \<Rightarrow> string option" where
  "strip_prefix [] ys = Some ys"
| "strip_prefix (x # xs) [] = None"
| "strip_prefix (x # xs) (y # ys) = (if x = y then strip_prefix xs ys else None)"

text \<open>
  The name under which the node at \<open>q\<close> is an entry of the directory \<open>p\<close>: what follows
  \<open>p\<close> and one separator, when that is a single non-empty path component.
\<close>

definition child_name :: "string \<Rightarrow> string \<Rightarrow> string option" where
  "child_name p q =
     (case strip_prefix (join p []) q of
        None \<Rightarrow> None
      | Some n \<Rightarrow> if n \<noteq> [] \<and> CHR ''/'' \<notin> set n then Some n else None)"

fun entries :: "string \<Rightarrow> fs \<Rightarrow> dir_entry list" where
  "entries p [] = []"
| "entries p ((q, n) # rest) =
     (case child_name p q of
        None \<Rightarrow> entries p rest
      | Some nm \<Rightarrow> \<lparr>name = nm, path = join p nm\<rparr> # entries p rest)"

definition scandir :: "fs \<Rightarrow> string \<Rightarrow> error + dir_entry list" where
  "scandir fs p =
     (case map_of fs p of
        None \<Rightarrow> Inl FileNotFoundError
      | Some (File c) \<Rightarrow> Inl NotADirectoryError
      | Some Dir \<Rightarrow> Inr (entries p fs))"

text \<open>\<^verbatim>\<open>Image.open(path).convert('RGB')\<close>\<close>

definition open_convert :: "fs \<Rightarrow> string \<Rightarrow> error + nat" where
  "open_convert fs p =
     (case map_of fs p of
        None \<Rightarrow> Inl FileNotFoundError
      | Some Dir \<Rightarrow> Inl IsADirectoryError
      | Some (File Undecodable) \<Rightarrow> Inl UnidentifiedImageError
      | Some (File (Decodable img)) \<Rightarrow> Inr img)"

text \<open>\<^verbatim>\<open>image.save(path, 'png')\<close>\<close>

definition save :: "fs \<Rightarrow> string \<Rightarrow> nat \<Rightarrow> error + fs" where
  "save fs p img =
     (if isdir fs p then Inl IsADirectoryError
      else Inr (AList.update p (File (Decodable img)) fs))"

section \<open>Strings\<close>

text \<open>\<^verbatim>\<open>str.split(sep)\<close> for a separator of one character.\<close>

fun split :: "char \<Rightarrow> string \<Rightarrow> string list" where
  "split c [] = [[]]"
| "split c (x # xs) =
     (if x = c then [] # split c xs
      else (case split c xs of
              [] \<Rightarrow> [[x]]
            | s # ss \<Rightarrow> (x # s) # ss))"

definition digit_char :: "nat \<Rightarrow> char" where
  "digit_char d = char_of (48 + d)"

fun digits :: "nat \<Rightarrow> string" where
  "digits n = (if n < 10 then [digit_char n] else digits (n div 10) @ [digit_char (n mod 10)])"

declare digits.simps [simp del]

text \<open>\<^verbatim>\<open>'{:03d}.png'.format(n)\<close>. The counter starts at 1 and is only ever incremented.\<close>

definition IMAGE_FILENAME_FORMAT :: "nat \<Rightarrow> string" where
  "IMAGE_FILENAME_FORMAT n =
     replicate (3 - length (digits n)) (CHR ''0'') @ digits n @ ''.png''"

section \<open>ImageWriter\<close>

record image_writer =
  output_path :: string
  image_count :: nat

definition build_image_path :: "image_writer \<Rightarrow> string" where
  "build_image_path w = join (output_path w) (IMAGE_FILENAME_FORMAT (image_count w))"

text \<open>
  The loop of \<^verbatim>\<open>ImageWriter.__init__\<close>:
  \<^verbatim>\<open>while os.path.exists(self._build_image_path()): self._image_count += 1\<close>
\<close>

function probe :: "fs \<Rightarrow> image_writer \<Rightarrow> image_writer" where
  "probe fs w =
     (if exists fs (build_image_path w) then probe fs (w\<lparr>image_count := image_count w + 1\<rparr>)
      else w)"
  by pat_completeness auto

text \<open>
  \<^verbatim>\<open>ImageWriter.__init__\<close> returns the new Writer, the filesystem it leaves and the number
  it prints as the initial image count.
\<close>

definition ImageWriter_init :: "fs \<Rightarrow> string \<Rightarrow> error + (image_writer \<times> fs \<times> nat)" where
  "ImageWriter_init fs out_path =
     (case (if \<not> exists fs out_path then mkdir fs out_path else Inr fs) of
        Inl e \<Rightarrow> Inl e
      | Inr fs' \<Rightarrow>
          (let w = probe fs' \<lparr>output_path = out_path, image_count = 1\<rparr>
           in Inr (w, fs', image_count w - 1)))"

definition write_image :: "image_writer \<Rightarrow> nat \<Rightarrow> fs \<Rightarrow> error + (image_writer \<times> fs)" where
  "write_image w img fs =
     (let image_path = build_image_path w
      in case save fs image_path img of
           Inl e \<Rightarrow> Inl e
         | Inr fs' \<Rightarrow> Inr (w\<lparr>image_count := image_count w + 1\<rparr>, fs'))"

section \<open>ImageSource\<close>

record image_source =
  source_list :: "string list"
  destructive :: bool

text \<open>
  The body of the \<^verbatim>\<open>for file in os.scandir(source_path)\<close> loop of
  \<^verbatim>\<open>_generate_source_list\<close>, over the entries still to visit and the \<^verbatim>\<open>input_list\<close>
  built so far. The recursive call is made on \<^verbatim>\<open>source_path\<close> itself, as in the source.
  The interpreter bounds the depth of recursion: \<open>frames\<close> is the number of nested calls of
  \<^verbatim>\<open>_generate_source_list\<close> that it still allows inside the running one, and a call
  beyond that raises \<^verbatim>\<open>RecursionError\<close>. The source sets no limit of its own, so the
  number is the interpreter's (\<^verbatim>\<open>sys.getrecursionlimit()\<close>, 1000 unless changed, less the
  frames in use).
\<close>

function scan_entries ::
  "nat \<Rightarrow> fs \<Rightarrow> string \<Rightarrow> bool \<Rightarrow> dir_entry list \<Rightarrow> string list \<Rightarrow> error + string list"
where
  "scan_entries frames fs source_path recursive files input_list =
     (case files of
        [] \<Rightarrow> Inr input_list
      | file # rest \<Rightarrow>
          if isdir fs (path file) then
            (if recursive then
               (case name file of
                  [] \<Rightarrow> Inl IndexError
                | c # cs \<Rightarrow>
                    if c \<noteq> CHR ''.'' then
                      (case frames of
                         0 \<Rightarrow> Inl RecursionError
                       | Suc frames' \<Rightarrow>
                           (case scandir fs source_path of
                              Inl e \<Rightarrow> Inl e
                            | Inr sub_files \<Rightarrow>
                                (case scan_entries frames' fs source_path recursive sub_files [] of
                                   Inl e \<Rightarrow> Inl e
                                 | Inr sub \<Rightarrow>
                                     scan_entries frames fs source_path recursive rest
                                       (input_list @ sub))))
                    else scan_entries frames fs source_path recursive rest input_list)
             else scan_entries frames fs source_path recursive rest input_list)
          else if last (split (CHR ''.'') (name file)) = ''webp''
          then scan_entries frames fs source_path recursive rest (input_list @ [path file])
          else scan_entries frames fs source_path recursive rest input_list)"
  by pat_completeness auto

definition generate_source_list ::
  "nat \<Rightarrow> fs \<Rightarrow> string \<Rightarrow> bool \<Rightarrow> error + string list" where
  "generate_source_list frames fs source_path recursive =
     (case scandir fs source_path of
        Inl e \<Rightarrow> Inl e
      | Inr files \<Rightarrow> scan_entries frames fs source_path recursive files [])"

definition ImageSource_init ::
  "nat \<Rightarrow> fs \<Rightarrow> string \<Rightarrow> bool \<Rightarrow> bool \<Rightarrow> error + image_source" where
  "ImageSource_init frames fs source_path destr recursive =
     (if \<not> exists fs source_path then Inl OSError
      else (case generate_source_list frames fs source_path recursive of
              Inl e \<Rightarrow> Inl e
            | Inr l \<Rightarrow> Inr \<lparr>source_list = l, destructive = destr\<rparr>))"

text \<open>
  \<^verbatim>\<open>ImageSource.__next__\<close>: \<^verbatim>\<open>list.pop()\<close> takes the last path and raises
  \<^verbatim>\<open>IndexError\<close> on the empty list; any \<^verbatim>\<open>IndexError\<close> of the body leaves as
  \<^verbatim>\<open>StopIteration\<close>. The Source and the filesystem are returned as the call leaves them,
  also when it raises.
\<close>

definition except_IndexError :: "error \<Rightarrow> error" where
  "except_IndexError e = (if e = IndexError then StopIteration else e)"

definition ImageSource_next ::
  "image_source \<Rightarrow> fs \<Rightarrow> (error + nat) \<times> image_source \<times> fs" where
  "ImageSource_next s fs =
     (if source_list s = [] then (Inl (except_IndexError IndexError), s, fs)
      else
        (let p = last (source_list s);
             s' = s\<lparr>source_list := butlast (source_list s)\<rparr>
         in case open_convert fs p of
              Inl e \<Rightarrow> (Inl (except_IndexError e), s', fs)
            | Inr img \<Rightarrow>
                if destructive s then
                  (case remove fs p of
                     Inl e \<Rightarrow> (Inl (except_IndexError e), s', fs)
                   | Inr fs' \<Rightarrow> (Inr img, s', fs'))
                else (Inr img, s', fs)))"

section \<open>main\<close>

record arguments =
  arg_source_path :: string
  arg_output_path :: string
  arg_recursive :: bool
  arg_destructive :: bool

text \<open>
  \<^verbatim>\<open>for image in sources: writer.write_image(image)\<close>. The loop ends without an error
  when \<^verbatim>\<open>__next__\<close> raises \<^verbatim>\<open>StopIteration\<close>; any other error ends the run.
\<close>

function for_image_in_sources ::
  "image_source \<Rightarrow> image_writer \<Rightarrow> fs \<Rightarrow> error option \<times> image_source \<times> image_writer \<times> fs"
where
  "for_image_in_sources sources writer fs =
     (case ImageSource_next sources fs of
        (Inl e, sources', fs') \<Rightarrow>
          (if e = StopIteration then None else Some e, sources', writer, fs')
      | (Inr img, sources', fs') \<Rightarrow>
          (case write_image writer img fs' of
             Inl e \<Rightarrow> (Some e, sources', writer, fs')
           | Inr (writer', fs'') \<Rightarrow> for_image_in_sources sources' writer' fs''))"
  by pat_completeness auto

text \<open>
  \<^verbatim>\<open>main\<close> returns the error that ended the run, if any, and the filesystem the run
  leaves. \<open>frames\<close> is the depth of recursion the interpreter allows to the source scan.
\<close>

definition main :: "nat \<Rightarrow> fs \<Rightarrow> arguments \<Rightarrow> error option \<times> fs" where
  "main frames fs args =
     (case ImageSource_init frames fs (arg_source_path args) (arg_destructive args)
             (arg_recursive args) of
        Inl e \<Rightarrow> (Some e, fs)
      | Inr sources \<Rightarrow>
          (case ImageWriter_init fs (arg_output_path args) of
             Inl e \<Rightarrow> (Some e, fs)
           | Inr (writer, fs', reported) \<Rightarrow>
               (case for_image_in_sources sources writer fs' of
                  (r, sources', writer', fs'') \<Rightarrow> (r, fs''))))"


text \<open>The number a string of decimal digits stands for.\<close>

definition digits_value :: "string \<Rightarrow> nat" where
  "digits_value s = foldl (\<lambda>a c. 10 * a + (of_char c - 48)) 0 s"

text \<open>The paths a scan records from a list of directory entries.\<close>

definition webp_files :: "fs \<Rightarrow> dir_entry list \<Rightarrow> string list" where
  "webp_files fs files =
     map path (filter (\<lambda>file. \<not> isdir fs (path file) \<and>
                              last (split (CHR ''.'') (name file)) = ''webp'') files)"

section \<open>The source scan and the main loop end\<close>

text \<open>
  A nested call of the scan has one frame less to go; every other call of the loop body has
  one entry less to visit.
\<close>

termination scan_entries
  by (relation "measures [\<lambda>(frames, fs, source_path, recursive, files, input_list). frames,
                          \<lambda>(frames, fs, source_path, recursive, files, input_list). length files]")
     auto

declare scan_entries.simps [simp del]

termination for_image_in_sources
proof (relation "measure (\<lambda>(s, w, fs). length (source_list s))")
  show "wf (measure (\<lambda>(s, w, fs). length (source_list s)))" by simp
next
  fix sources writer fs x1 x2 img sources' fs' x2a writer' fs''
  assume "(x1, x2) = ImageSource_next sources fs" "x1 = Inr img" "(sources', fs') = x2"
  then have "ImageSource_next sources fs = (Inr img, sources', fs')" by simp
  then have "length (source_list sources') < length (source_list sources)"
    by (auto simp: ImageSource_next_def Let_def split: if_splits sum.splits)
  then show "((sources', writer', fs''), sources, writer, fs)
      \<in> measure (\<lambda>(s, w, fs). length (source_list s))" by simp
qed

section \<open>Slot names are read back\<close>

lemma of_char_digit_char: "d < 10 \<Longrightarrow> of_char (digit_char d) = (48 + d :: nat)"
  by (simp add: digit_char_def)

lemma digits_value_snoc: "digits_value (s @ [c]) = 10 * digits_value s + (of_char c - 48)"
  by (simp add: digits_value_def)

lemma digits_value_digits: "digits_value (digits n) = n"
proof (induction n rule: digits.induct)
  case (1 n)
  show ?case
  proof (cases "n < 10")
    case True
    then show ?thesis
      by (subst digits.simps) (simp add: digits_value_def of_char_digit_char)
  next
    case False
    then have "digits_value (digits (n div 10)) = n div 10" using 1 by simp
    then show ?thesis using False
      by (subst digits.simps) (simp add: digits_value_snoc of_char_digit_char)
  qed
qed

lemma digits_value_zeros: "digits_value (replicate k (CHR ''0'') @ s) = digits_value s"
proof -
  have "foldl (\<lambda>a c. 10 * a + (of_char c - 48)) (0::nat) (replicate k (CHR ''0'')) = 0"
    by (induction k) simp_all
  then show ?thesis by (simp add: digits_value_def)
qed

lemma FORMAT_index:
  "digits_value (take (length (IMAGE_FILENAME_FORMAT n) - 4) (IMAGE_FILENAME_FORMAT n)) = n"
  by (simp add: IMAGE_FILENAME_FORMAT_def digits_value_zeros digits_value_digits)

lemma FORMAT_inj: "IMAGE_FILENAME_FORMAT m = IMAGE_FILENAME_FORMAT n \<Longrightarrow> m = n"
  by (metis FORMAT_index)

lemma digit_char_not_slash: "d < 10 \<Longrightarrow> digit_char d \<noteq> CHR ''/''"
proof
  assume "d < 10" "digit_char d = CHR ''/''"
  then have "(of_char (digit_char d) :: nat) = of_char (CHR ''/'')" by simp
  then show False using \<open>d < 10\<close> by (simp add: of_char_digit_char)
qed

lemma digits_no_slash: "CHR ''/'' \<notin> set (digits n)"
proof (induction n rule: digits.induct)
  case (1 n)
  show ?case
  proof (cases "n < 10")
    case True
    then show ?thesis by (subst digits.simps) (simp add: digit_char_not_slash[symmetric] digit_char_not_slash)
  next
    case False
    then have "CHR ''/'' \<notin> set (digits (n div 10))" using 1 by simp
    moreover have "digit_char (n mod 10) \<noteq> CHR ''/''" by (rule digit_char_not_slash) simp
    ultimately show ?thesis using False by (subst digits.simps) auto
  qed
qed

lemma FORMAT_no_slash: "CHR ''/'' \<notin> set (IMAGE_FILENAME_FORMAT n)"
  by (simp add: IMAGE_FILENAME_FORMAT_def digits_no_slash)

lemma FORMAT_nonempty: "IMAGE_FILENAME_FORMAT n \<noteq> []"
  by (simp add: IMAGE_FILENAME_FORMAT_def)

lemma join_relative: "b \<noteq> [] \<Longrightarrow> CHR ''/'' \<notin> set b \<Longrightarrow> join a b = join a [] @ b"
  by (cases b) (auto simp: join_def)

lemma build_image_path_eq:
  "build_image_path w = join (output_path w) [] @ IMAGE_FILENAME_FORMAT (image_count w)"
  by (simp add: build_image_path_def join_relative FORMAT_no_slash FORMAT_nonempty)

lemma build_image_path_inj:
  "output_path v = output_path w \<Longrightarrow> build_image_path v = build_image_path w \<Longrightarrow>
   image_count v = image_count w"
  by (simp add: build_image_path_eq FORMAT_inj)

section \<open>The probe of the Writer ends\<close>

lemma exists_iff: "exists fs p \<longleftrightarrow> p \<in> fst ` set fs"
  by (simp add: exists_def map_of_eq_None_iff)

lemma finite_slots: "finite {k. exists fs (join out (IMAGE_FILENAME_FORMAT k))}"
proof -
  let ?f = "\<lambda>k. join out (IMAGE_FILENAME_FORMAT k)"
  let ?A = "{k. exists fs (?f k)}"
  have "?f ` ?A \<subseteq> fst ` set fs" by (auto simp: exists_iff)
  then have "finite (?f ` ?A)" by (rule finite_subset) simp
  moreover have "inj_on ?f ?A"
    by (rule inj_onI) (simp add: join_relative FORMAT_no_slash FORMAT_nonempty FORMAT_inj)
  ultimately show ?thesis by (rule finite_imageD)
qed

termination probe
proof (relation "measure (\<lambda>(fs, w).
    card {k. image_count w \<le> k \<and> exists fs (join (output_path w) (IMAGE_FILENAME_FORMAT k))})")
  show "wf (measure (\<lambda>(fs, w).
    card {k. image_count w \<le> k \<and> exists fs (join (output_path w) (IMAGE_FILENAME_FORMAT k))}))"
    by simp
next
  fix fs :: fs and w :: image_writer
  assume ex: "exists fs (build_image_path w)"
  let ?S = "\<lambda>c. {k. c \<le> k \<and> exists fs (join (output_path w) (IMAGE_FILENAME_FORMAT k))}"
  have fin: "finite (?S (image_count w))"
    by (rule finite_subset[OF _ finite_slots[of fs "output_path w"]]) auto
  have "image_count w \<in> ?S (image_count w)" using ex by (simp add: build_image_path_def)
  moreover have "image_count w \<notin> ?S (image_count w + 1)" by simp
  moreover have "?S (image_count w + 1) \<subseteq> ?S (image_count w)" by auto
  ultimately have "?S (image_count w + 1) \<subset> ?S (image_count w)" by blast
  then have "card (?S (image_count w + 1)) < card (?S (image_count w))"
    using fin by (rule psubset_card_mono[rotated])
  then show "((fs, w\<lparr>image_count := image_count w + 1\<rparr>), fs, w) \<in> measure (\<lambda>(fs, w).
    card {k. image_count w \<le> k \<and> exists fs (join (output_path w) (IMAGE_FILENAME_FORMAT k))})"
    by simp
qed

declare probe.simps [simp del]

declare for_image_in_sources.simps [simp del]

section \<open>The directory scan\<close>

lemma split_nonempty: "split c s \<noteq> []"
  by (induction s) (auto split: list.splits)

lemma split_single: "split c s = [t] \<Longrightarrow> t = s"
proof (induction s arbitrary: t)
  case Nil
  then show ?case by simp
next
  case (Cons x xs)
  show ?case
  proof (cases "x = c")
    case True
    then show ?thesis using Cons.prems split_nonempty[of c xs] by simp
  next
    case False
    then show ?thesis using Cons split_nonempty[of c xs] by (auto split: list.splits)
  qed
qed

lemma last_split_suffix: "\<exists>pre. s = pre @ last (split c s)"
proof (induction s)
  case Nil
  then show ?case by simp
next
  case (Cons x xs)
  then obtain pre where pre: "xs = pre @ last (split c xs)" by blast
  show ?case
  proof (cases "split c (x # xs)")
    case Nil
    then show ?thesis using split_nonempty[of c "x # xs"] by simp
  next
    case outer: (Cons t ts)
    show ?thesis
    proof (cases ts)
      case Nil
      then have "t = x # xs" using outer split_single by blast
      then show ?thesis using outer Nil by simp
    next
      case (Cons u us)
      then have "last (split c (x # xs)) = last (split c xs)"
        using outer split_nonempty[of c xs] by (auto split: if_splits list.splits)
      then show ?thesis using pre by (metis append_Cons)
    qed
  qed
qed

lemma entries_names:
  "e \<in> set (entries p fs) \<Longrightarrow>
   name e \<noteq> [] \<and> CHR ''/'' \<notin> set (name e) \<and> path e = join p (name e)"
  by (induction p fs rule: entries.induct)
     (auto simp: child_name_def split: option.splits if_splits)

lemma scandir_names:
  "scandir fs p = Inr files \<Longrightarrow> e \<in> set files \<Longrightarrow>
   name e \<noteq> [] \<and> CHR ''/'' \<notin> set (name e) \<and> path e = join p (name e)"
  by (auto simp: scandir_def entries_names split: option.splits node.splits)

lemma webp_files_Nil: "webp_files fs [] = []"
  by (simp add: webp_files_def)

lemma webp_files_Cons:
  "webp_files fs (e # es) =
     (if \<not> isdir fs (path e) \<and> last (split (CHR ''.'') (name e)) = ''webp''
      then path e # webp_files fs es else webp_files fs es)"
  by (simp add: webp_files_def)

lemma scan_entries_flat:
  "\<not> recursive \<or> (\<forall>e\<in>set files. isdir fs (path e) \<longrightarrow> (\<exists>cs. name e = CHR ''.'' # cs)) \<Longrightarrow>
   scan_entries frames fs source_path recursive files input_list =
     Inr (input_list @ webp_files fs files)"
proof (induction files arbitrary: input_list)
  case Nil
  show ?case by (subst scan_entries.simps) (simp add: webp_files_Nil)
next
  case (Cons entry rest)
  then have IH: "\<forall>l. scan_entries frames fs source_path recursive rest l =
     Inr (l @ webp_files fs rest)" by auto
  show ?case using Cons.prems IH
    by (subst scan_entries.simps) (auto simp: webp_files_Cons)
qed

lemma scan_entries_visible:
  assumes "scandir fs source_path = Inr sub"
    and "frames = 0 \<or>
         (\<exists>n. frames = Suc n \<and> scan_entries n fs source_path True sub [] = Inl RecursionError)"
    and "\<exists>e\<in>set files. isdir fs (path e) \<and> hd (name e) \<noteq> CHR ''.''"
    and "\<forall>e\<in>set files. name e \<noteq> []"
  shows "scan_entries frames fs source_path True files input_list = Inl RecursionError"
  using assms(3,4)
proof (induction files arbitrary: input_list)
  case Nil
  then show ?case by simp
next
  case (Cons entry rest)
  obtain c cs where nm: "name entry = c # cs" using Cons.prems(2) by (cases "name entry") auto
  show ?case
  proof (cases "isdir fs (path entry) \<and> c \<noteq> CHR ''.''")
    case True
    then show ?thesis using assms(1,2) nm
      by (subst scan_entries.simps) auto
  next
    case False
    then have "\<exists>e\<in>set rest. isdir fs (path e) \<and> hd (name e) \<noteq> CHR ''.''"
      using Cons.prems(1) nm by auto
    then have "\<forall>l. scan_entries frames fs source_path True rest l = Inl RecursionError"
      using Cons.IH Cons.prems(2) by simp
    then show ?thesis using False nm
      by (subst scan_entries.simps) auto
  qed
qed

lemma scan_entries_overflows:
  assumes "scandir fs source_path = Inr sub"
    and "\<exists>e\<in>set sub. isdir fs (path e) \<and> hd (name e) \<noteq> CHR ''.''"
  shows "scan_entries frames fs source_path True sub [] = Inl RecursionError"
proof -
  have names: "\<forall>e\<in>set sub. name e \<noteq> []" using scandir_names[OF assms(1)] by blast
  show ?thesis
  proof (induction frames)
    case 0
    show ?case by (rule scan_entries_visible[OF assms(1) _ assms(2) names]) simp
  next
    case (Suc n)
    show ?case by (rule scan_entries_visible[OF assms(1) _ assms(2) names]) (simp add: Suc)
  qed
qed

lemma generate_source_list_overflows:
  assumes "scandir fs source_path = Inr files" "e \<in> set files"
    "isdir fs (path e)" "hd (name e) \<noteq> CHR ''.''"
  shows "generate_source_list frames fs source_path True = Inl RecursionError"
proof -
  have "\<exists>e\<in>set files. isdir fs (path e) \<and> hd (name e) \<noteq> CHR ''.''" using assms(2-4) by blast
  from scan_entries_overflows[OF assms(1) this] show ?thesis
    using assms(1) by (simp add: generate_source_list_def)
qed

lemma generate_source_list_flat:
  assumes "scandir fs source_path = Inr files"
  shows "generate_source_list frames fs source_path False = Inr (webp_files fs files)"
  using assms scan_entries_flat[of False files fs frames source_path "[]"]
  by (simp add: generate_source_list_def)

lemma generate_source_list_result:
  assumes "scandir fs source_path = Inr files"
  shows "generate_source_list frames fs source_path recursive =
     (if recursive \<and> (\<exists>e\<in>set files. isdir fs (path e) \<and> hd (name e) \<noteq> CHR ''.'')
      then Inl RecursionError else Inr (webp_files fs files))"
proof (cases "recursive \<and> (\<exists>e\<in>set files. isdir fs (path e) \<and> hd (name e) \<noteq> CHR ''.'')")
  case True
  then show ?thesis using generate_source_list_overflows[OF assms] by auto
next
  case False
  have "\<not> recursive \<or> (\<forall>e\<in>set files. isdir fs (path e) \<longrightarrow> (\<exists>cs. name e = CHR ''.'' # cs))"
  proof (cases recursive)
    case True
    have "\<exists>cs. name e = CHR ''.'' # cs" if "e \<in> set files" "isdir fs (path e)" for e
    proof -
      have "name e \<noteq> []" using scandir_names[OF assms(1) that(1)] by simp
      moreover have "hd (name e) = CHR ''.''" using False True that by blast
      ultimately show ?thesis by (cases "name e") auto
    qed
    then show ?thesis by blast
  qed simp
  from scan_entries_flat[OF this] assms False show ?thesis
    by (simp add: generate_source_list_def)
qed

lemma entries_path_inj:
  assumes "scandir fs source_path = Inr files" "e \<in> set files" "e' \<in> set files"
    "path e = path e'"
  shows "name e = name e'"
proof -
  have "path e = join source_path [] @ name e" "path e' = join source_path [] @ name e'"
    using scandir_names[OF assms(1)] assms(2,3) by (simp_all add: join_relative)
  with assms(4) show ?thesis by simp
qed

lemma webp_files_member:
  assumes "scandir fs source_path = Inr files" "e \<in> set files"
  shows "path e \<in> set (webp_files fs files) \<longleftrightarrow>
         \<not> isdir fs (path e) \<and> last (split (CHR ''.'') (name e)) = ''webp''"
proof
  assume "path e \<in> set (webp_files fs files)"
  then obtain e' where e': "e' \<in> set files" "path e' = path e" "\<not> isdir fs (path e')"
    "last (split (CHR ''.'') (name e')) = ''webp''"
    by (auto simp: webp_files_def)
  then have "name e' = name e" using entries_path_inj[OF assms(1) _ assms(2)] by simp
  with e' show "\<not> isdir fs (path e) \<and> last (split (CHR ''.'') (name e)) = ''webp''" by simp
next
  assume "\<not> isdir fs (path e) \<and> last (split (CHR ''.'') (name e)) = ''webp''"
  then show "path e \<in> set (webp_files fs files)" using assms(2) by (auto simp: webp_files_def)
qed

section \<open>The extension test\<close>

text \<open>
  C10. A file whose name is exactly \<^verbatim>\<open>webp\<close>, with no dot at all, passes the extension
  test: splitting the name at \<^verbatim>\<open>.\<close> gives the whole name as its only and last segment,
  so a scan of a directory holding such a file records its path.
\<close>

theorem C10_name_webp_is_accepted:
  "split (CHR ''.'') ''webp'' = [''webp''] \<and>
   generate_source_list frames [(''src'', Dir), (''src/webp'', File (Decodable 0))] ''src'' False =
     Inr [''src/webp'']"
proof -
  let ?fs = "[(''src'', Dir), (''src/webp'', File (Decodable 0))]"
  let ?es = "[\<lparr>name = ''webp'', path = ''src/webp''\<rparr>]"
  have a: "split (CHR ''.'') ''webp'' = [''webp'']" by code_simp
  have b: "scandir ?fs ''src'' = Inr ?es" by code_simp
  have c: "webp_files ?fs ?es = [''src/webp'']" by code_simp
  show ?thesis using a generate_source_list_flat[OF b, of frames] c by simp
qed

text \<open>
  C4. The scan of a directory returns exactly the paths of the entries that are not
  directories and whose name has \<^verbatim>\<open>webp\<close> as its last dot-segment, compared as it is
  written. It returns that list always when run without recursion, and with recursion
  unless the directory has a visible subdirectory, when it raises \<^verbatim>\<open>RecursionError\<close>
  instead. Among the file entries an entry is recorded if and only if that last segment is
  \<^verbatim>\<open>webp\<close>; \<^verbatim>\<open>x.WEBP\<close> and \<^verbatim>\<open>x.webp.bak\<close> fail the test.
\<close>

theorem C4_extension_filter:
  assumes "scandir fs source_path = Inr files"
  shows "generate_source_list frames fs source_path recursive =
           (if recursive \<and> (\<exists>e\<in>set files. isdir fs (path e) \<and> hd (name e) \<noteq> CHR ''.'')
            then Inl RecursionError else Inr (webp_files fs files)) \<and>
         generate_source_list frames fs source_path False = Inr (webp_files fs files) \<and>
         (\<forall>e\<in>set files. \<not> isdir fs (path e) \<longrightarrow>
            (path e \<in> set (webp_files fs files) \<longleftrightarrow>
             last (split (CHR ''.'') (name e)) = ''webp'')) \<and>
         last (split (CHR ''.'') ''x.WEBP'') \<noteq> ''webp'' \<and>
         last (split (CHR ''.'') ''x.webp.bak'') \<noteq> ''webp''"
proof -
  have "generate_source_list frames fs source_path recursive =
           (if recursive \<and> (\<exists>e\<in>set files. isdir fs (path e) \<and> hd (name e) \<noteq> CHR ''.'')
            then Inl RecursionError else Inr (webp_files fs files))"
    using generate_source_list_result[OF assms] .
  moreover have "generate_source_list frames fs source_path False = Inr (webp_files fs files)"
    using generate_source_list_flat[OF assms] .
  moreover have "\<forall>e\<in>set files. \<not> isdir fs (path e) \<longrightarrow>
            (path e \<in> set (webp_files fs files) \<longleftrightarrow>
             last (split (CHR ''.'') (name e)) = ''webp'')"
    using webp_files_member[OF assms] by blast
  moreover have "last (split (CHR ''.'') ''x.WEBP'') \<noteq> ''webp''" by simp
  moreover have "last (split (CHR ''.'') ''x.webp.bak'') \<noteq> ''webp''" by simp
  ultimately show ?thesis by blast
qed

theorem C4_extension_filter_witness:
  "scandir [(''src'', Dir), (''src/x.WEBP'', File (Decodable 1)),
            (''src/x.webp.bak'', File (Decodable 2)), (''src/a.webp'', File (Decodable 3))] ''src'' =
     Inr [\<lparr>name = ''x.WEBP'', path = ''src/x.WEBP''\<rparr>,
          \<lparr>name = ''x.webp.bak'', path = ''src/x.webp.bak''\<rparr>,
          \<lparr>name = ''a.webp'', path = ''src/a.webp''\<rparr>] \<and>
   generate_source_list 1000 [(''src'', Dir), (''src/x.WEBP'', File (Decodable 1)),
            (''src/x.webp.bak'', File (Decodable 2)), (''src/a.webp'', File (Decodable 3))] ''src'' True =
     Inr [''src/a.webp''] \<and>
   webp_files [(''src'', Dir), (''src/x.WEBP'', File (Decodable 1)),
            (''src/x.webp.bak'', File (Decodable 2)), (''src/a.webp'', File (Decodable 3))]
        [\<lparr>name = ''x.WEBP'', path = ''src/x.WEBP''\<rparr>,
          \<lparr>name = ''x.webp.bak'', path = ''src/x.webp.bak''\<rparr>,
          \<lparr>name = ''a.webp'', path = ''src/a.webp''\<rparr>] = [''src/a.webp'']"
proof -
  let ?fs = "[(''src'', Dir), (''src/x.WEBP'', File (Decodable 1)),
            (''src/x.webp.bak'', File (Decodable 2)), (''src/a.webp'', File (Decodable 3))]"
  let ?es = "[\<lparr>name = ''x.WEBP'', path = ''src/x.WEBP''\<rparr>,
          \<lparr>name = ''x.webp.bak'', path = ''src/x.webp.bak''\<rparr>,
          \<lparr>name = ''a.webp'', path = ''src/a.webp''\<rparr>]"
  have h1: "scandir ?fs ''src'' = Inr ?es" by code_simp
  have h2: "webp_files ?fs ?es = [''src/a.webp'']" by code_simp
  have h3: "\<not> (\<exists>e\<in>set ?es. isdir ?fs (path e) \<and> hd (name e) \<noteq> CHR ''.'')"
    by (simp add: isdir_def)
  from C4_extension_filter[OF h1, of 1000 True] h3
  have "generate_source_list 1000 ?fs ''src'' True = Inr (webp_files ?fs ?es)" by simp
  with h1 h2 show ?thesis by simp
qed

lemma scandir_exists: "scandir fs p = Inr files \<Longrightarrow> exists fs p"
  by (auto simp: scandir_def exists_def split: option.splits node.splits)

section \<open>The recursive scan\<close>




text \<open>
  C2. A source directory with one visible subdirectory that holds a \<^verbatim>\<open>webp\<close> file: the
  recursive scan raises \<^verbatim>\<open>RecursionError\<close> whatever depth of recursion is allowed, so
  the file in the subdirectory is never collected; the scan without recursion returns the
  empty list.
\<close>

theorem C2_subdirectory_file_is_never_reached:
  "generate_source_list frames
     [(''src'', Dir), (''src/sub'', Dir), (''src/sub/x.webp'', File (Decodable 1))] ''src'' True =
     Inl RecursionError \<and>
   generate_source_list frames
     [(''src'', Dir), (''src/sub'', Dir), (''src/sub/x.webp'', File (Decodable 1))] ''src'' False =
     Inr []"
proof -
  let ?fs = "[(''src'', Dir), (''src/sub'', Dir), (''src/sub/x.webp'', File (Decodable 1))]"
  let ?e = "\<lparr>name = ''sub'', path = ''src/sub''\<rparr>"
  have h1: "scandir ?fs ''src'' = Inr [?e]" by code_simp
  have h3: "isdir ?fs (path ?e)" by (simp add: isdir_def)
  have h5: "webp_files ?fs [?e] = []" by code_simp
  have "generate_source_list frames ?fs ''src'' True = Inl RecursionError"
    using generate_source_list_overflows[OF h1 _ h3] by simp
  moreover have "generate_source_list frames ?fs ''src'' False = Inr []"
    using generate_source_list_flat[OF h1, of frames] h5 by simp
  ultimately show ?thesis by simp
qed

section \<open>A missing source path\<close>

text \<open>
  C8. When the source path does not exist, the construction of the Source raises
  \<^verbatim>\<open>OSError\<close>, and \<^verbatim>\<open>main\<close> ends with that error and the filesystem as it found it: no
  directory was scanned and no output directory was made. When the path exists, the
  construction goes on to the scan and its outcome is the outcome of the scan.
\<close>

theorem C8_missing_source_path:
  "(\<not> exists fs source_path \<longrightarrow>
      ImageSource_init frames fs source_path destr recursive = Inl OSError \<and>
      main frames fs \<lparr>arg_source_path = source_path, arg_output_path = out_path,
               arg_recursive = recursive, arg_destructive = destr\<rparr> = (Some OSError, fs)) \<and>
   (exists fs source_path \<longrightarrow>
      ImageSource_init frames fs source_path destr recursive =
        (case generate_source_list frames fs source_path recursive of
           Inl e \<Rightarrow> Inl e
         | Inr l \<Rightarrow> Inr \<lparr>source_list = l, destructive = destr\<rparr>))"
  by (simp add: ImageSource_init_def main_def)

theorem C8_missing_source_path_witness:
  "\<not> exists [(''out'', Dir)] ''src'' \<and>
   ImageSource_init 1000 [(''out'', Dir)] ''src'' True False = Inl OSError \<and>
   main 1000 [(''out'', Dir)] \<lparr>arg_source_path = ''src'', arg_output_path = ''new'',
               arg_recursive = False, arg_destructive = True\<rparr> =
     (Some OSError, [(''out'', Dir)]) \<and>
   exists [(''src'', Dir), (''src/a.webp'', File (Decodable 1))] ''src'' \<and>
   ImageSource_init 1000 [(''src'', Dir), (''src/a.webp'', File (Decodable 1))] ''src'' True False =
     Inr \<lparr>source_list = [''src/a.webp''], destructive = True\<rparr>"
proof -
  have a: "\<not> exists [(''out'', Dir)] ''src''" by (simp add: exists_def)
  have b: "exists [(''src'', Dir), (''src/a.webp'', File (Decodable 1))] ''src''"
    by (simp add: exists_def)
  have c: "generate_source_list 1000
      [(''src'', Dir), (''src/a.webp'', File (Decodable 1))] ''src'' False
    = Inr [''src/a.webp'']" by code_simp
  from C8_missing_source_path[of "[(''out'', Dir)]" "''src''" 1000 True False "''new''"]
    C8_missing_source_path[of "[(''src'', Dir), (''src/a.webp'', File (Decodable 1))]" "''src''"
      1000 True False "''new''"] a b c
  show ?thesis by simp
qed

section \<open>The Writer\<close>

lemma probe_spec:
  "output_path (probe fs w) = output_path w \<and>
   image_count w \<le> image_count (probe fs w) \<and>
   \<not> exists fs (build_image_path (probe fs w)) \<and>
   (\<forall>k. image_count w \<le> k \<and> k < image_count (probe fs w) \<longrightarrow>
        exists fs (join (output_path w) (IMAGE_FILENAME_FORMAT k)))"
proof (induction fs w rule: probe.induct)
  case (1 fs w)
  show ?case
  proof (cases "exists fs (build_image_path w)")
    case False
    then have "probe fs w = w" by (subst probe.simps) simp
    then show ?thesis using False by auto
  next
    case True
    let ?w = "w\<lparr>image_count := image_count w + 1\<rparr>"
    have eq: "probe fs w = probe fs ?w" using True by (subst probe.simps) simp
    have IH: "output_path (probe fs ?w) = output_path ?w \<and>
      image_count ?w \<le> image_count (probe fs ?w) \<and>
      \<not> exists fs (build_image_path (probe fs ?w)) \<and>
      (\<forall>k. image_count ?w \<le> k \<and> k < image_count (probe fs ?w) \<longrightarrow>
        exists fs (join (output_path ?w) (IMAGE_FILENAME_FORMAT k)))"
      using 1[OF True] .
    have "exists fs (join (output_path w) (IMAGE_FILENAME_FORMAT k))"
      if "image_count w \<le> k" "k < image_count (probe fs ?w)" for k
    proof (cases "k = image_count w")
      case True
      then show ?thesis using \<open>exists fs (build_image_path w)\<close> by (simp add: build_image_path_def)
    next
      case False
      then show ?thesis using IH that by simp
    qed
    then show ?thesis using IH unfolding eq by simp
  qed
qed

lemma FORMAT_three_digits:
  assumes "k < 1000"
  shows "IMAGE_FILENAME_FORMAT k =
     [digit_char (k div 100), digit_char (k div 10 mod 10), digit_char (k mod 10)] @ ''.png''"
proof -
  have z: "CHR ''0'' = digit_char 0" unfolding digit_char_def by code_simp
  consider "k < 10" | "10 \<le> k" "k < 100" | "100 \<le> k" using assms by linarith
  then show ?thesis
  proof cases
    case 1
    then have "digits k = [digit_char k]" by (subst digits.simps) simp
    then show ?thesis using 1 by (simp add: IMAGE_FILENAME_FORMAT_def z numeral_3_eq_3)
  next
    case 2
    then have a: "k div 10 < 10" "\<not> k < 10" "k div 100 = 0" by auto
    have "digits (k div 10) = [digit_char (k div 10)]" using a by (subst digits.simps) simp
    then have "digits k = [digit_char (k div 10), digit_char (k mod 10)]"
      using a by (subst digits.simps) simp
    then show ?thesis using a by (simp add: IMAGE_FILENAME_FORMAT_def z)
  next
    case 3
    then have a: "k div 10 div 10 < 10" "\<not> k div 10 < 10" "\<not> k < 10"
      using assms by (auto simp: div_mult2_eq)
    have "digits (k div 10 div 10) = [digit_char (k div 10 div 10)]"
      using a by (subst digits.simps) simp
    then have "digits (k div 10) = [digit_char (k div 10 div 10), digit_char (k div 10 mod 10)]"
      using a by (subst digits.simps) simp
    then have "digits k =
      [digit_char (k div 10 div 10), digit_char (k div 10 mod 10), digit_char (k mod 10)]"
      using a by (subst digits.simps) simp
    moreover have "k div 10 div 10 = k div 100" by (simp add: div_mult2_eq)
    ultimately show ?thesis by (simp add: IMAGE_FILENAME_FORMAT_def)
  qed
qed

text \<open>
  C5. The construction of a Writer always returns. It leaves the filesystem as it was, with
  the output directory added when it was missing. Its counter is the first index from 1 on
  whose slot path does not exist: every smaller index has an existing slot path. The number
  it reports is the counter minus one. Below 1000 the slot name is the three decimal digits
  of the index, zero-padded, followed by \<^verbatim>\<open>.png\<close>.
\<close>

theorem C5_starting_counter:
  "\<exists>w fs'. ImageWriter_init fs out_path = Inr (w, fs', image_count w - 1) \<and>
     fs' = (if exists fs out_path then fs else fs @ [(out_path, Dir)]) \<and>
     output_path w = out_path \<and> 1 \<le> image_count w \<and>
     \<not> exists fs' (join out_path (IMAGE_FILENAME_FORMAT (image_count w))) \<and>
     (\<forall>k. 1 \<le> k \<and> k < image_count w \<longrightarrow>
          exists fs' (join out_path (IMAGE_FILENAME_FORMAT k))) \<and>
     (\<forall>k<1000. IMAGE_FILENAME_FORMAT k =
          [digit_char (k div 100), digit_char (k div 10 mod 10), digit_char (k mod 10)] @ ''.png'')"
proof -
  let ?fs = "if exists fs out_path then fs else fs @ [(out_path, Dir)]"
  let ?w = "probe ?fs \<lparr>output_path = out_path, image_count = 1\<rparr>"
  have i: "ImageWriter_init fs out_path = Inr (?w, ?fs, image_count ?w - 1)"
    by (simp add: ImageWriter_init_def mkdir_def Let_def)
  have p: "output_path ?w = out_path" "1 \<le> image_count ?w"
    "\<not> exists ?fs (build_image_path ?w)"
    "\<forall>k. 1 \<le> k \<and> k < image_count ?w \<longrightarrow> exists ?fs (join out_path (IMAGE_FILENAME_FORMAT k))"
    using probe_spec[of ?fs "\<lparr>output_path = out_path, image_count = 1\<rparr>"] by simp_all
  have "\<not> exists ?fs (join out_path (IMAGE_FILENAME_FORMAT (image_count ?w)))"
    using p(1,3) by (simp add: build_image_path_def)
  then show ?thesis using i p FORMAT_three_digits by blast
qed

theorem C5_starting_counter_witness:
  "ImageWriter_init [(''out'', Dir), (''out/001.png'', File (Decodable 5)),
                     (''out/002.png'', File (Decodable 6))] ''out'' =
     Inr (\<lparr>output_path = ''out'', image_count = 3\<rparr>,
          [(''out'', Dir), (''out/001.png'', File (Decodable 5)),
           (''out/002.png'', File (Decodable 6))], 2) \<and>
   IMAGE_FILENAME_FORMAT 3 = ''003.png'' \<and>
   (\<exists>w fs'. ImageWriter_init [(''out'', Dir), (''out/001.png'', File (Decodable 5)),
                     (''out/002.png'', File (Decodable 6))] ''out'' =
               Inr (w, fs', image_count w - 1))"
proof -
  let ?fs = "[(''out'', Dir), (''out/001.png'', File (Decodable 5)),
              (''out/002.png'', File (Decodable 6))]"
  have a: "ImageWriter_init ?fs ''out'' =
     Inr (\<lparr>output_path = ''out'', image_count = 3\<rparr>, ?fs, 2)" by code_simp
  have b: "IMAGE_FILENAME_FORMAT 3 = ''003.png''" by code_simp
  from C5_starting_counter[of ?fs "''out''"]
  have "\<exists>w fs'. ImageWriter_init ?fs ''out'' = Inr (w, fs', image_count w - 1)" by blast
  with a b show ?thesis by blast
qed





lemma slot_inj:
  "join out (IMAGE_FILENAME_FORMAT j) = join out (IMAGE_FILENAME_FORMAT k) \<Longrightarrow> j = k"
  by (simp add: join_relative FORMAT_no_slash FORMAT_nonempty FORMAT_inj)










section \<open>Pulling an image from the Source\<close>

lemma open_convert_Inl:
  "open_convert fs p = Inl e \<Longrightarrow> e \<noteq> IndexError \<and> e \<noteq> StopIteration"
  by (auto simp: open_convert_def split: option.splits node.splits content.splits)

lemma open_convert_Inr:
  "open_convert fs p = Inr img \<longleftrightarrow> map_of fs p = Some (File (Decodable img))"
  by (auto simp: open_convert_def split: option.splits node.splits content.splits)

lemma remove_file:
  "map_of fs p = Some (File c) \<Longrightarrow> remove fs p = Inr (filter (\<lambda>(q, n). q \<noteq> p) fs)"
  by (simp add: remove_def)

lemma map_of_filter_key:
  "map_of (filter (\<lambda>(q, n). q \<noteq> p) fs) q' = (if q' = p then None else map_of fs q')"
  by (induction fs) auto

lemma next_empty:
  "source_list s = [] \<Longrightarrow> ImageSource_next s fs = (Inl StopIteration, s, fs)"
  by (simp add: ImageSource_next_def except_IndexError_def)

lemma next_decode_fails:
  assumes "source_list s \<noteq> []" "open_convert fs (last (source_list s)) = Inl e"
  shows "ImageSource_next s fs = (Inl e, s\<lparr>source_list := butlast (source_list s)\<rparr>, fs)"
  using assms open_convert_Inl[OF assms(2)]
  by (simp add: ImageSource_next_def except_IndexError_def Let_def)

lemma next_decode_succeeds:
  assumes "source_list s \<noteq> []" "open_convert fs (last (source_list s)) = Inr img"
  shows "ImageSource_next s fs =
    (Inr img, s\<lparr>source_list := butlast (source_list s)\<rparr>,
     if destructive s then filter (\<lambda>(q, n). q \<noteq> last (source_list s)) fs else fs)"
proof -
  have "map_of fs (last (source_list s)) = Some (File (Decodable img))"
    using assms(2) by (simp add: open_convert_Inr)
  then have "remove fs (last (source_list s)) =
     Inr (filter (\<lambda>(q, n). q \<noteq> last (source_list s)) fs)" by (rule remove_file)
  then show ?thesis using assms by (simp add: ImageSource_next_def Let_def)
qed

text \<open>
  C7. A pull from a Source with paths left takes the last path. When the decode of that path
  fails, the pull raises the decoder's error, and so does the loop of \<^verbatim>\<open>main\<close>, with the
  filesystem exactly as it was: the source file is not deleted. When the decode succeeds,
  the pull returns the image, and the filesystem it leaves is the one it found, less that
  path when the Source is destructive.
\<close>

theorem C7_delete_only_after_decode:
  assumes "source_list s \<noteq> []"
  shows "(\<forall>e. open_convert fs (last (source_list s)) = Inl e \<longrightarrow>
            ImageSource_next s fs = (Inl e, s\<lparr>source_list := butlast (source_list s)\<rparr>, fs) \<and>
            for_image_in_sources s w fs =
              (Some e, s\<lparr>source_list := butlast (source_list s)\<rparr>, w, fs)) \<and>
         (\<forall>img. open_convert fs (last (source_list s)) = Inr img \<longrightarrow>
            ImageSource_next s fs =
              (Inr img, s\<lparr>source_list := butlast (source_list s)\<rparr>,
               if destructive s then filter (\<lambda>(q, n). q \<noteq> last (source_list s)) fs else fs))"
proof (intro conjI allI impI)
  fix e assume e: "open_convert fs (last (source_list s)) = Inl e"
  show n: "ImageSource_next s fs = (Inl e, s\<lparr>source_list := butlast (source_list s)\<rparr>, fs)"
    using next_decode_fails[OF assms e] .
  show "for_image_in_sources s w fs =
              (Some e, s\<lparr>source_list := butlast (source_list s)\<rparr>, w, fs)"
    using n open_convert_Inl[OF e] by (subst for_image_in_sources.simps) simp
next
  fix img assume "open_convert fs (last (source_list s)) = Inr img"
  then show "ImageSource_next s fs =
              (Inr img, s\<lparr>source_list := butlast (source_list s)\<rparr>,
               if destructive s then filter (\<lambda>(q, n). q \<noteq> last (source_list s)) fs else fs)"
    using next_decode_succeeds[OF assms] by simp
qed

theorem C7_delete_only_after_decode_witness:
  "open_convert [(''src'', Dir), (''src/a.webp'', File (Decodable 1)),
                 (''src/b.webp'', File Undecodable)] ''src/b.webp'' = Inl UnidentifiedImageError \<and>
   ImageSource_next \<lparr>source_list = [''src/a.webp'', ''src/b.webp''], destructive = True\<rparr>
     [(''src'', Dir), (''src/a.webp'', File (Decodable 1)), (''src/b.webp'', File Undecodable)] =
     (Inl UnidentifiedImageError, \<lparr>source_list = [''src/a.webp''], destructive = True\<rparr>,
      [(''src'', Dir), (''src/a.webp'', File (Decodable 1)), (''src/b.webp'', File Undecodable)]) \<and>
   open_convert [(''src'', Dir), (''src/a.webp'', File (Decodable 1)),
                 (''src/b.webp'', File Undecodable)] ''src/a.webp'' = Inr 1 \<and>
   ImageSource_next \<lparr>source_list = [''src/a.webp''], destructive = True\<rparr>
     [(''src'', Dir), (''src/a.webp'', File (Decodable 1)), (''src/b.webp'', File Undecodable)] =
     (Inr 1, \<lparr>source_list = [], destructive = True\<rparr>,
      [(''src'', Dir), (''src/b.webp'', File Undecodable)])"
proof -
  let ?fs = "[(''src'', Dir), (''src/a.webp'', File (Decodable 1)),
              (''src/b.webp'', File Undecodable)]"
  let ?s = "\<lparr>source_list = [''src/a.webp'', ''src/b.webp''], destructive = True\<rparr>"
  let ?t = "\<lparr>source_list = [''src/a.webp''], destructive = True\<rparr>"
  have a: "open_convert ?fs ''src/b.webp'' = Inl UnidentifiedImageError"
    by (simp add: open_convert_def)
  have b: "open_convert ?fs ''src/a.webp'' = Inr 1" by (simp add: open_convert_def)
  have s: "source_list ?s \<noteq> []" and t: "source_list ?t \<noteq> []" by simp_all
  from C7_delete_only_after_decode[OF s, of ?fs] C7_delete_only_after_decode[OF t, of ?fs] a b
  show ?thesis by simp
qed

section \<open>The loop of main\<close>

lemma write_image_Inr:
  assumes "write_image w img fs = Inr (w', fs')"
  shows "w' = w\<lparr>image_count := image_count w + 1\<rparr> \<and>
         map_of fs' = (map_of fs)(build_image_path w \<mapsto> File (Decodable img))"
  using assms
  by (auto simp: write_image_def save_def Let_def update_conv' split: if_splits)

lemma next_Inr:
  assumes "ImageSource_next s fs = (Inr img, s', fs')"
  shows "source_list s \<noteq> [] \<and> s' = s\<lparr>source_list := butlast (source_list s)\<rparr> \<and>
         open_convert fs (last (source_list s)) = Inr img \<and>
         fs' = (if destructive s then filter (\<lambda>(q, n). q \<noteq> last (source_list s)) fs else fs)"
proof -
  have ne: "source_list s \<noteq> []" using assms by (auto simp: next_empty)
  show ?thesis
  proof (cases "open_convert fs (last (source_list s))")
    case (Inl e)
    then show ?thesis using next_decode_fails[OF ne Inl] assms by simp
  next
    case (Inr d)
    then show ?thesis using next_decode_succeeds[OF ne Inr] assms ne by simp
  qed
qed

lemma next_Inl:
  assumes "ImageSource_next s fs = (Inl e, s', fs')" "source_list s \<noteq> []"
  shows "e \<noteq> StopIteration"
proof (cases "open_convert fs (last (source_list s))")
  case (Inl e')
  then show ?thesis using next_decode_fails[OF assms(2) Inl] assms(1) open_convert_Inl[OF Inl]
    by simp
next
  case (Inr d)
  then show ?thesis using next_decode_succeeds[OF assms(2) Inr] assms(1) by simp
qed

lemma loop_success:
  assumes "for_image_in_sources s w fs = (None, s', w', fs')"
    and "\<forall>q\<in>set (source_list s). \<forall>k. q \<noteq> join (output_path w) (IMAGE_FILENAME_FORMAT k)"
  shows "image_count w' = image_count w + length (source_list s) \<and>
     output_path w' = output_path w \<and>
     (\<forall>i<length (source_list s). \<exists>d.
         map_of fs (rev (source_list s) ! i) = Some (File (Decodable d)) \<and>
         map_of fs' (join (output_path w) (IMAGE_FILENAME_FORMAT (image_count w + i))) =
           Some (File (Decodable d))) \<and>
     (\<forall>p. (\<forall>i<length (source_list s).
               p \<noteq> join (output_path w) (IMAGE_FILENAME_FORMAT (image_count w + i))) \<longrightarrow>
          map_of fs' p =
            (if destructive s \<and> p \<in> set (source_list s) then None else map_of fs p))"
  using assms
proof (induction l \<equiv> "source_list s" arbitrary: s w fs rule: rev_induct)
  case Nil
  then have "ImageSource_next s fs = (Inl StopIteration, s, fs)" by (simp add: next_empty)
  then have "for_image_in_sources s w fs = (None, s, w, fs)"
    by (subst for_image_in_sources.simps) simp
  with Nil show ?case by simp
next
  case (snoc p xs)
  let ?out = "output_path w"
  let ?c = "image_count w"
  let ?slot = "\<lambda>k. join ?out (IMAGE_FILENAME_FORMAT k)"
  have l: "source_list s = xs @ [p]" using snoc.hyps(2) by simp
  obtain r s1 fs1 where n: "ImageSource_next s fs = (r, s1, fs1)"
    by (cases "ImageSource_next s fs") auto
  have run: "for_image_in_sources s w fs = (None, s', w', fs')" using snoc.prems(1) .
  obtain img where r: "r = Inr img"
  proof (cases r)
    case (Inl e)
    then have "e \<noteq> StopIteration" using next_Inl[of s fs e s1 fs1] n l by simp
    then have "fst (for_image_in_sources s w fs) = Some e"
      using n Inl by (subst for_image_in_sources.simps) simp
    then show ?thesis using run by simp
  next
    case (Inr img)
    then show ?thesis using that by simp
  qed
  from next_Inr[of s fs img s1 fs1] n r l
  have s1: "s1 = s\<lparr>source_list := xs\<rparr>"
    and dec: "map_of fs p = Some (File (Decodable img))"
    and fs1: "fs1 = (if destructive s then filter (\<lambda>(q, n). q \<noteq> p) fs else fs)"
    by (simp_all add: open_convert_Inr)
  obtain w1 fs2 where wr: "write_image w img fs1 = Inr (w1, fs2)"
  proof (cases "write_image w img fs1")
    case (Inl e)
    then have "fst (for_image_in_sources s w fs) = Some e"
      using n r by (subst for_image_in_sources.simps) simp
    then show ?thesis using run by simp
  next
    case (Inr x)
    then show ?thesis using that by (cases x) simp
  qed
  from write_image_Inr[OF wr]
  have w1: "w1 = w\<lparr>image_count := ?c + 1\<rparr>"
    and fs2: "map_of fs2 = (map_of fs1)(?slot ?c \<mapsto> File (Decodable img))"
    by (simp_all add: build_image_path_def)
  have run1: "for_image_in_sources s1 w1 fs2 = (None, s', w', fs')"
    using run n r wr by (subst (asm) for_image_in_sources.simps) simp
  have nonslot: "\<forall>q\<in>set (xs @ [p]). \<forall>k. q \<noteq> ?slot k" using snoc.prems(2) l by simp
  have fs1_map: "map_of fs1 q = (if destructive s \<and> q = p then None else map_of fs q)" for q
    unfolding fs1 by (simp add: map_of_filter_key)
  have IH: "image_count w' = ?c + 1 + length xs \<and> output_path w' = ?out \<and>
     (\<forall>i<length xs. \<exists>d.
         map_of fs2 (rev xs ! i) = Some (File (Decodable d)) \<and>
         map_of fs' (?slot (?c + 1 + i)) = Some (File (Decodable d))) \<and>
     (\<forall>q. (\<forall>i<length xs. q \<noteq> ?slot (?c + 1 + i)) \<longrightarrow>
          map_of fs' q = (if destructive s \<and> q \<in> set xs then None else map_of fs2 q))"
    using snoc.hyps(1)[of s1 w1 fs2] run1 nonslot s1 w1 by simp
  have slot_ne: "?slot ?c \<noteq> ?slot (?c + 1 + i)" for i
    using slot_inj[of ?out ?c "?c + 1 + i"] by auto
  have frame: "map_of fs' q = (if destructive s \<and> q \<in> set (xs @ [p]) then None else map_of fs q)"
    if q: "\<forall>i<length (xs @ [p]). q \<noteq> ?slot (?c + i)" for q
  proof -
    have q0: "q \<noteq> ?slot ?c" using q[rule_format, of 0] by simp
    have "q \<noteq> ?slot (?c + 1 + i)" if "i < length xs" for i
      using q[rule_format, of "Suc i"] that by simp
    then have "map_of fs' q = (if destructive s \<and> q \<in> set xs then None else map_of fs2 q)"
      using IH by blast
    moreover have "map_of fs2 q = map_of fs1 q" using q0 fs2 by simp
    ultimately show ?thesis using fs1_map[of q] by auto
  qed
  have slots: "\<exists>d. map_of fs (rev (xs @ [p]) ! i) = Some (File (Decodable d)) \<and>
         map_of fs' (?slot (?c + i)) = Some (File (Decodable d))"
    if i: "i < length (xs @ [p])" for i
  proof (cases i)
    case 0
    have "\<forall>j<length xs. ?slot ?c \<noteq> ?slot (?c + 1 + j)" using slot_ne by blast
    then have "map_of fs' (?slot ?c) =
       (if destructive s \<and> ?slot ?c \<in> set xs then None else map_of fs2 (?slot ?c))"
      using IH by blast
    moreover have "?slot ?c \<notin> set xs" using nonslot by auto
    ultimately have "map_of fs' (?slot ?c) = Some (File (Decodable img))" using fs2 by simp
    then show ?thesis using 0 dec by simp
  next
    case (Suc j)
    then have j: "j < length xs" using i by simp
    then obtain d where d: "map_of fs2 (rev xs ! j) = Some (File (Decodable d))"
      "map_of fs' (?slot (?c + 1 + j)) = Some (File (Decodable d))" using IH by blast
    have mem: "rev xs ! j \<in> set xs" using j by (metis length_rev nth_mem set_rev)
    then have "rev xs ! j \<noteq> ?slot ?c" using nonslot by auto
    then have "map_of fs1 (rev xs ! j) = Some (File (Decodable d))" using d(1) fs2 by simp
    then have "map_of fs (rev xs ! j) = Some (File (Decodable d))"
      using fs1_map[of "rev xs ! j"] by (auto split: if_splits)
    then show ?thesis using Suc d(2) by simp
  qed
  show ?case unfolding l using IH frame slots by simp
qed

section \<open>A successful run\<close>

lemma strip_prefix_Some: "strip_prefix xs ys = Some r \<Longrightarrow> ys = xs @ r"
  by (induction xs ys rule: strip_prefix.induct) (auto split: if_splits)

lemma child_name_path: "child_name p q = Some nm \<Longrightarrow> join p nm = q"
proof -
  assume a: "child_name p q = Some nm"
  then have "strip_prefix (join p []) q = Some nm" "nm \<noteq> []" "CHR ''/'' \<notin> set nm"
    by (auto simp: child_name_def split: option.splits if_splits)
  then show ?thesis using strip_prefix_Some join_relative by metis
qed

lemma entries_paths: "path ` set (entries p fs) \<subseteq> fst ` set fs"
proof (induction p fs rule: entries.induct)
  case (1 p)
  then show ?case by simp
next
  case (2 p q n rest)
  then show ?case by (auto simp: child_name_path split: option.splits)
qed

lemma entries_distinct: "distinct (map fst fs) \<Longrightarrow> distinct (map path (entries p fs))"
proof (induction p fs rule: entries.induct)
  case (1 p)
  then show ?case by simp
next
  case (2 p q n rest)
  then show ?case using entries_paths[of p rest]
    by (auto simp: child_name_path split: option.splits)
qed

lemma webp_files_distinct:
  "scandir fs p = Inr files \<Longrightarrow> distinct (map fst fs) \<Longrightarrow> distinct (webp_files fs files)"
  by (auto simp: scandir_def webp_files_def entries_distinct distinct_map_filter
           split: option.splits node.splits)

lemma webp_files_exist:
  assumes "scandir fs sp = Inr files" "p \<in> set (webp_files fs files)"
  shows "exists fs p"
proof -
  have "files = entries sp fs" using assms(1)
    by (auto simp: scandir_def split: option.splits node.splits)
  then have "p \<in> path ` set (entries sp fs)" using assms(2) by (auto simp: webp_files_def)
  then show ?thesis using entries_paths[of sp fs] by (auto simp: exists_iff)
qed

lemma join_last: "b \<noteq> [] \<Longrightarrow> last (join a b) = last b"
  by (simp add: join_def)

lemma webp_not_slot:
  assumes "last (split (CHR ''.'') nm) = ''webp''"
  shows "join a nm \<noteq> join b (IMAGE_FILENAME_FORMAT k)"
proof -
  obtain pre where "nm = pre @ ''webp''" using last_split_suffix[of nm "CHR ''.''"] assms by auto
  then have "nm \<noteq> []" "last nm = CHR ''p''" by simp_all
  then have "last (join a nm) = CHR ''p''" by (simp add: join_last)
  moreover have "last (join b (IMAGE_FILENAME_FORMAT k)) = CHR ''g''"
    by (simp add: join_last FORMAT_nonempty) (simp add: IMAGE_FILENAME_FORMAT_def)
  ultimately show ?thesis by auto
qed

lemma webp_files_not_slot:
  assumes "scandir fs sp = Inr files" "p \<in> set (webp_files fs files)"
  shows "p \<noteq> join out (IMAGE_FILENAME_FORMAT k)"
proof -
  obtain e where e: "e \<in> set files" "p = path e" "last (split (CHR ''.'') (name e)) = ''webp''"
    using assms(2) by (auto simp: webp_files_def)
  then have "p = join sp (name e)" using scandir_names[OF assms(1) e(1)] by simp
  then show ?thesis using webp_not_slot[OF e(3)] by simp
qed

lemma init_result:
  "\<exists>w. ImageWriter_init fs out =
     Inr (w, if exists fs out then fs else fs @ [(out, Dir)], image_count w - 1)"
  by (simp add: ImageWriter_init_def mkdir_def Let_def)

lemma init_map_of:
  assumes "ImageWriter_init fs out = Inr (w, fs1, n)" "exists fs p"
  shows "map_of fs1 p = map_of fs p"
proof -
  have "fs1 = (if exists fs out then fs else fs @ [(out, Dir)])"
    using init_result[of fs out] assms(1) by auto
  then show ?thesis using assms(2) by (auto simp: exists_def)
qed

lemma init_output_path:
  assumes "ImageWriter_init fs out = Inr (w, fs1, n)"
  shows "output_path w = out"
proof -
  have "w = probe fs1 \<lparr>output_path = out, image_count = 1\<rparr>"
    using assms by (auto simp: ImageWriter_init_def mkdir_def Let_def split: if_splits)
  then show ?thesis using probe_spec[of fs1 "\<lparr>output_path = out, image_count = 1\<rparr>"] by simp
qed

lemma main_run:
  assumes "scandir fs (arg_source_path args) = Inr files"
  shows "main frames fs args = (Some RecursionError, fs) \<or>
     (\<exists>w fs1 n r s' w' fs'.
        ImageWriter_init fs (arg_output_path args) = Inr (w, fs1, n) \<and>
        for_image_in_sources
          \<lparr>source_list = webp_files fs files, destructive = arg_destructive args\<rparr> w fs1 =
          (r, s', w', fs') \<and>
        main frames fs args = (r, fs'))"
proof -
  let ?s = "\<lparr>source_list = webp_files fs files, destructive = arg_destructive args\<rparr>"
  have ex: "exists fs (arg_source_path args)" using scandir_exists[OF assms] .
  show ?thesis
  proof (cases "generate_source_list frames fs (arg_source_path args) (arg_recursive args) =
                  Inl RecursionError")
    case True
    then show ?thesis using ex by (simp add: main_def ImageSource_init_def)
  next
    case False
    then have g: "generate_source_list frames fs (arg_source_path args) (arg_recursive args) =
        Inr (webp_files fs files)"
      using generate_source_list_result[OF assms, of frames "arg_recursive args"]
      by (auto split: if_splits)
    have i: "ImageSource_init frames fs (arg_source_path args) (arg_destructive args)
               (arg_recursive args) = Inr ?s"
      using g ex by (simp add: ImageSource_init_def)
    obtain w where w: "ImageWriter_init fs (arg_output_path args) =
       Inr (w, if exists fs (arg_output_path args) then fs else fs @ [(arg_output_path args, Dir)],
            image_count w - 1)"
      using init_result by blast
    obtain r s' w' fs' where run: "for_image_in_sources ?s w
        (if exists fs (arg_output_path args) then fs else fs @ [(arg_output_path args, Dir)]) =
        (r, s', w', fs')"
      using prod_cases4 by blast
    have "main frames fs args = (r, fs')" using i w run by (simp add: main_def)
    then show ?thesis using w run by blast
  qed
qed

lemma main_success:
  assumes "main frames fs args = (None, fs')"
    and "scandir fs (arg_source_path args) = Inr files"
  shows "\<exists>w fs1 n s' w'.
     ImageWriter_init fs (arg_output_path args) = Inr (w, fs1, n) \<and>
     for_image_in_sources
       \<lparr>source_list = webp_files fs files, destructive = arg_destructive args\<rparr> w fs1 =
       (None, s', w', fs')"
  using main_run[OF assms(2), of frames] assms(1) by auto

lemma next_keeps:
  assumes "ImageSource_next s fs = (x, s1, fs1)" "\<not> destructive s"
  shows "fs1 = fs \<and> \<not> destructive s1 \<and> length (source_list s1) \<le> length (source_list s) \<and>
         (\<forall>img. x = Inr img \<longrightarrow> source_list s1 = butlast (source_list s) \<and> source_list s \<noteq> [])"
  using assms
  by (auto simp: ImageSource_next_def Let_def split: if_splits sum.splits)

lemma loop_keeps:
  assumes "for_image_in_sources s w fs = (r, s', w', fs')"
    and "\<not> destructive s"
    and "\<forall>k. p \<noteq> join (output_path w) (IMAGE_FILENAME_FORMAT k)"
  shows "map_of fs' p = map_of fs p"
  using assms
proof (induction l \<equiv> "source_list s" arbitrary: s w fs rule: rev_induct)
  case Nil
  then have "ImageSource_next s fs = (Inl StopIteration, s, fs)" by (simp add: next_empty)
  then have "for_image_in_sources s w fs = (None, s, w, fs)"
    by (subst for_image_in_sources.simps) simp
  with Nil show ?case by simp
next
  case (snoc q xs)
  have l: "source_list s = xs @ [q]" using snoc.hyps(2) by simp
  obtain x s1 fs1 where n: "ImageSource_next s fs = (x, s1, fs1)"
    by (cases "ImageSource_next s fs") auto
  from next_keeps[OF n snoc.prems(2)]
  have fs1: "fs1 = fs" and nd: "\<not> destructive s1"
    and xs: "\<forall>img. x = Inr img \<longrightarrow> source_list s1 = xs" using l by simp_all
  show ?case
  proof (cases x)
    case (Inl e)
    then have "for_image_in_sources s w fs =
        (if e = StopIteration then None else Some e, s1, w, fs1)"
      using n by (subst for_image_in_sources.simps) simp
    then show ?thesis using snoc.prems(1) fs1 by simp
  next
    case (Inr img)
    show ?thesis
    proof (cases "write_image w img fs1")
      case (Inl e)
      then have "for_image_in_sources s w fs = (Some e, s1, w, fs1)"
        using n Inr by (subst for_image_in_sources.simps) simp
      then show ?thesis using snoc.prems(1) fs1 by simp
    next
      case wr: (Inr y)
      obtain w1 fs2 where y: "y = (w1, fs2)" by (cases y)
      from write_image_Inr[OF wr[unfolded y]]
      have w1: "w1 = w\<lparr>image_count := image_count w + 1\<rparr>"
        and fs2: "map_of fs2 = (map_of fs1)(build_image_path w \<mapsto> File (Decodable img))"
        by simp_all
      have run1: "for_image_in_sources s1 w1 fs2 = (r, s', w', fs')"
        using snoc.prems(1) n Inr wr y by (subst (asm) for_image_in_sources.simps) simp
      have "xs = source_list s1" using xs Inr by simp
      moreover have "\<forall>k. p \<noteq> join (output_path w1) (IMAGE_FILENAME_FORMAT k)"
        using snoc.prems(3) w1 by simp
      ultimately have "map_of fs' p = map_of fs2 p"
        using snoc.hyps(1)[of s1 w1 fs2] run1 nd by blast
      moreover have "p \<noteq> build_image_path w"
        using snoc.prems(3) by (simp add: build_image_path_def)
      ultimately show ?thesis using fs2 fs1 by simp
    qed
  qed
qed

text \<open>
  C6. After a run of \<^verbatim>\<open>main\<close> with the destructive flag set that ends without an error,
  no path that the scan matched exists any more. After every run of \<^verbatim>\<open>main\<close> with the
  flag unset, however it ends, every matched path still exists and holds what it held
  before the run.
\<close>

theorem C6_destructive_mode:
  assumes "main frames fs args = (r, fs')"
    and "scandir fs (arg_source_path args) = Inr files"
  shows "\<forall>p\<in>set (webp_files fs files).
           (arg_destructive args \<and> r = None \<longrightarrow> \<not> exists fs' p) \<and>
           (\<not> arg_destructive args \<longrightarrow> exists fs' p \<and> map_of fs' p = map_of fs p)"
proof
  fix p assume p: "p \<in> set (webp_files fs files)"
  let ?s = "\<lparr>source_list = webp_files fs files, destructive = arg_destructive args\<rparr>"
  have ex: "exists fs p" using webp_files_exist[OF assms(2) p] .
  have gone: "\<not> exists fs' p" if "arg_destructive args \<and> r = None"
  proof -
    from main_success[OF _ assms(2)] assms(1) that obtain w fs1 n s' w' where
      i: "ImageWriter_init fs (arg_output_path args) = Inr (w, fs1, n)" and
      run: "for_image_in_sources ?s w fs1 = (None, s', w', fs')" by blast
    have nonslot: "\<forall>q\<in>set (source_list ?s). \<forall>k. q \<noteq> join (output_path w) (IMAGE_FILENAME_FORMAT k)"
      using webp_files_not_slot[OF assms(2)] by simp
    have "\<forall>i<length (source_list ?s).
        p \<noteq> join (output_path w) (IMAGE_FILENAME_FORMAT (image_count w + i))"
      using webp_files_not_slot[OF assms(2) p] by simp
    with loop_success[OF run nonslot]
    have "map_of fs' p = (if destructive ?s \<and> p \<in> set (source_list ?s) then None else map_of fs1 p)"
      by blast
    then show ?thesis using that p by (simp add: exists_def)
  qed
  have kept: "exists fs' p \<and> map_of fs' p = map_of fs p" if nd: "\<not> arg_destructive args"
  proof -
    from main_run[OF assms(2), of frames] show ?thesis
    proof
      assume "main frames fs args = (Some RecursionError, fs)"
      then show ?thesis using assms(1) ex by simp
    next
      assume "\<exists>w fs1 n r s' w' fs'.
        ImageWriter_init fs (arg_output_path args) = Inr (w, fs1, n) \<and>
        for_image_in_sources ?s w fs1 = (r, s', w', fs') \<and> main frames fs args = (r, fs')"
      then obtain w fs1 n s' w' where
        i: "ImageWriter_init fs (arg_output_path args) = Inr (w, fs1, n)" and
        run: "for_image_in_sources ?s w fs1 = (r, s', w', fs')"
        using assms(1) by auto
      have "\<forall>k. p \<noteq> join (output_path w) (IMAGE_FILENAME_FORMAT k)"
        using webp_files_not_slot[OF assms(2) p] by simp
      from loop_keeps[OF run _ this] nd have "map_of fs' p = map_of fs1 p" by simp
      moreover have "map_of fs1 p = map_of fs p" using init_map_of[OF i ex] .
      ultimately show ?thesis using ex by (simp add: exists_def)
    qed
  qed
  show "(arg_destructive args \<and> r = None \<longrightarrow> \<not> exists fs' p) \<and>
        (\<not> arg_destructive args \<longrightarrow> exists fs' p \<and> map_of fs' p = map_of fs p)"
    using gone kept by blast
qed

theorem C6_destructive_mode_witness:
  "main 1000 [(''src'', Dir), (''src/a.webp'', File (Decodable 1)), (''out'', Dir),
         (''out/001.png'', File (Decodable 9))]
     \<lparr>arg_source_path = ''src'', arg_output_path = ''out'',
      arg_recursive = False, arg_destructive = True\<rparr> =
     (None, [(''src'', Dir), (''out'', Dir), (''out/001.png'', File (Decodable 9)),
             (''out/002.png'', File (Decodable 1))]) \<and>
   webp_files [(''src'', Dir), (''src/a.webp'', File (Decodable 1)), (''out'', Dir),
               (''out/001.png'', File (Decodable 9))]
     [\<lparr>name = ''a.webp'', path = ''src/a.webp''\<rparr>] = [''src/a.webp''] \<and>
   \<not> exists [(''src'', Dir), (''out'', Dir), (''out/001.png'', File (Decodable 9)),
             (''out/002.png'', File (Decodable 1))] ''src/a.webp'' \<and>
   main 1000 [(''src'', Dir), (''src/a.webp'', File (Decodable 1)), (''out'', Dir),
         (''out/001.png'', File (Decodable 9))]
     \<lparr>arg_source_path = ''src'', arg_output_path = ''out'',
      arg_recursive = False, arg_destructive = False\<rparr> =
     (None, [(''src'', Dir), (''src/a.webp'', File (Decodable 1)), (''out'', Dir),
             (''out/001.png'', File (Decodable 9)), (''out/002.png'', File (Decodable 1))]) \<and>
   exists [(''src'', Dir), (''src/a.webp'', File (Decodable 1)), (''out'', Dir),
           (''out/001.png'', File (Decodable 9)), (''out/002.png'', File (Decodable 1))]
     ''src/a.webp'' \<and>
   main 1000 [(''src'', Dir), (''src/b.webp'', File Undecodable),
         (''src/a.webp'', File (Decodable 1)), (''out'', Dir)]
     \<lparr>arg_source_path = ''src'', arg_output_path = ''out'',
      arg_recursive = False, arg_destructive = False\<rparr> =
     (Some UnidentifiedImageError,
      [(''src'', Dir), (''src/b.webp'', File Undecodable),
       (''src/a.webp'', File (Decodable 1)), (''out'', Dir),
       (''out/001.png'', File (Decodable 1))]) \<and>
   webp_files [(''src'', Dir), (''src/b.webp'', File Undecodable),
         (''src/a.webp'', File (Decodable 1)), (''out'', Dir)]
     [\<lparr>name = ''b.webp'', path = ''src/b.webp''\<rparr>, \<lparr>name = ''a.webp'', path = ''src/a.webp''\<rparr>] =
     [''src/b.webp'', ''src/a.webp''] \<and>
   map_of [(''src'', Dir), (''src/b.webp'', File Undecodable),
       (''src/a.webp'', File (Decodable 1)), (''out'', Dir),
       (''out/001.png'', File (Decodable 1))] ''src/b.webp'' = Some (File Undecodable) \<and>
   map_of [(''src'', Dir), (''src/b.webp'', File Undecodable),
       (''src/a.webp'', File (Decodable 1)), (''out'', Dir),
       (''out/001.png'', File (Decodable 1))] ''src/a.webp'' = Some (File (Decodable 1))"
proof -
  let ?fs = "[(''src'', Dir), (''src/a.webp'', File (Decodable 1)), (''out'', Dir),
              (''out/001.png'', File (Decodable 9))]"
  let ?es = "[\<lparr>name = ''a.webp'', path = ''src/a.webp''\<rparr>]"
  let ?d = "\<lparr>arg_source_path = ''src'', arg_output_path = ''out'',
             arg_recursive = False, arg_destructive = True\<rparr>"
  let ?n = "\<lparr>arg_source_path = ''src'', arg_output_path = ''out'',
             arg_recursive = False, arg_destructive = False\<rparr>"
  let ?fsd = "[(''src'', Dir), (''out'', Dir), (''out/001.png'', File (Decodable 9)),
               (''out/002.png'', File (Decodable 1))]"
  let ?fsn = "[(''src'', Dir), (''src/a.webp'', File (Decodable 1)), (''out'', Dir),
               (''out/001.png'', File (Decodable 9)), (''out/002.png'', File (Decodable 1))]"
  let ?gs = "[(''src'', Dir), (''src/b.webp'', File Undecodable),
              (''src/a.webp'', File (Decodable 1)), (''out'', Dir)]"
  let ?gs' = "[(''src'', Dir), (''src/b.webp'', File Undecodable),
               (''src/a.webp'', File (Decodable 1)), (''out'', Dir),
               (''out/001.png'', File (Decodable 1))]"
  let ?ges = "[\<lparr>name = ''b.webp'', path = ''src/b.webp''\<rparr>,
               \<lparr>name = ''a.webp'', path = ''src/a.webp''\<rparr>]"
  have md: "main 1000 ?fs ?d = (None, ?fsd)" by code_simp
  have mn: "main 1000 ?fs ?n = (None, ?fsn)" by code_simp
  have me: "main 1000 ?gs ?n = (Some UnidentifiedImageError, ?gs')" by code_simp
  have sd: "scandir ?fs (arg_source_path ?d) = Inr ?es" by code_simp
  have sn: "scandir ?fs (arg_source_path ?n) = Inr ?es" by code_simp
  have se: "scandir ?gs (arg_source_path ?n) = Inr ?ges" by code_simp
  have wf: "webp_files ?fs ?es = [''src/a.webp'']" by code_simp
  have we: "webp_files ?gs ?ges = [''src/b.webp'', ''src/a.webp'']" by code_simp
  from C6_destructive_mode[OF md sd] wf have a: "\<not> exists ?fsd ''src/a.webp''" by simp
  from C6_destructive_mode[OF mn sn] wf have b: "exists ?fsn ''src/a.webp''" by simp
  from C6_destructive_mode[OF me se] we
  have c: "map_of ?gs' ''src/b.webp'' = map_of ?gs ''src/b.webp''"
    and d: "map_of ?gs' ''src/a.webp'' = map_of ?gs ''src/a.webp''" by simp_all
  have e: "map_of ?gs' ''src/b.webp'' = Some (File Undecodable)" using c by simp
  have f: "map_of ?gs' ''src/a.webp'' = Some (File (Decodable 1))" using d by simp
  from md mn me wf we a b e f show ?thesis by blast
qed

lemma card_slots:
  "card ((\<lambda>i. join out (IMAGE_FILENAME_FORMAT (c + i))) ` {..<n}) = n"
proof -
  have "inj_on (\<lambda>i. join out (IMAGE_FILENAME_FORMAT (c + i))) {..<n}"
    by (rule inj_onI) (auto dest: slot_inj)
  then show ?thesis by (simp add: card_image)
qed

text \<open>
  C9. After a run of \<^verbatim>\<open>main\<close> that ends without an error, the matched paths, taken from
  the last to the first, were written one each to the slots from the starting counter of the
  Writer on: the slot holds the image that the source file held. Every path that is not one
  of these slots is as the Writer's construction left it, or gone when it is a matched path
  and the run is destructive. The slots written are as many as the matched paths, and, in a
  filesystem with one node per path, as many as the set of matched paths. In the scenario of
  \<^verbatim>\<open>a.webp\<close>, \<^verbatim>\<open>b.webp\<close> and \<^verbatim>\<open>readme.txt\<close> with an empty output directory, the run
  adds \<^verbatim>\<open>001.png\<close> and \<^verbatim>\<open>002.png\<close> to the output directory and nothing else, and
  leaves the three source files as they were.
\<close>

theorem C9_each_input_written_once:
  assumes "main frames fs args = (None, fs')"
    and "scandir fs (arg_source_path args) = Inr files"
    and "ImageWriter_init fs (arg_output_path args) = Inr (w, fs1, n)"
  shows "(\<forall>i<length (webp_files fs files). \<exists>d.
            map_of fs (rev (webp_files fs files) ! i) = Some (File (Decodable d)) \<and>
            map_of fs' (join (arg_output_path args) (IMAGE_FILENAME_FORMAT (image_count w + i))) =
              Some (File (Decodable d))) \<and>
         (\<forall>p. (\<forall>i<length (webp_files fs files).
                  p \<noteq> join (arg_output_path args) (IMAGE_FILENAME_FORMAT (image_count w + i))) \<longrightarrow>
              map_of fs' p =
                (if arg_destructive args \<and> p \<in> set (webp_files fs files) then None
                 else map_of fs1 p)) \<and>
         card ((\<lambda>i. join (arg_output_path args) (IMAGE_FILENAME_FORMAT (image_count w + i))) `
                 {..<length (webp_files fs files)}) = length (webp_files fs files) \<and>
         (distinct (map fst fs) \<longrightarrow>
            card ((\<lambda>i. join (arg_output_path args) (IMAGE_FILENAME_FORMAT (image_count w + i))) `
                 {..<length (webp_files fs files)}) = card (set (webp_files fs files))) \<and>
         main frames [(''src'', Dir), (''src/a.webp'', File (Decodable 1)),
               (''src/b.webp'', File (Decodable 2)), (''src/readme.txt'', File Undecodable),
               (''out'', Dir)]
           \<lparr>arg_source_path = ''src'', arg_output_path = ''out'',
            arg_recursive = False, arg_destructive = False\<rparr> =
           (None,
             [(''src'', Dir), (''src/a.webp'', File (Decodable 1)),
              (''src/b.webp'', File (Decodable 2)), (''src/readme.txt'', File Undecodable),
              (''out'', Dir), (''out/001.png'', File (Decodable 2)),
              (''out/002.png'', File (Decodable 1))]) \<and>
         scandir
             [(''src'', Dir), (''src/a.webp'', File (Decodable 1)),
              (''src/b.webp'', File (Decodable 2)), (''src/readme.txt'', File Undecodable),
              (''out'', Dir), (''out/001.png'', File (Decodable 2)),
              (''out/002.png'', File (Decodable 1))] ''out'' =
           Inr [\<lparr>name = ''001.png'', path = ''out/001.png''\<rparr>,
                \<lparr>name = ''002.png'', path = ''out/002.png''\<rparr>]"
proof -
  let ?l = "webp_files fs files"
  let ?s = "\<lparr>source_list = ?l, destructive = arg_destructive args\<rparr>"
  let ?out = "arg_output_path args"
  from main_success[OF assms(1,2)] assms(3) obtain s' w' where
    run: "for_image_in_sources ?s w fs1 = (None, s', w', fs')" by auto
  have out: "output_path w = ?out" using init_output_path[OF assms(3)] .
  have nonslot: "\<forall>q\<in>set (source_list ?s). \<forall>k. q \<noteq> join (output_path w) (IMAGE_FILENAME_FORMAT k)"
    using webp_files_not_slot[OF assms(2)] by simp
  note L = loop_success[OF run nonslot, unfolded out, simplified]
  have a: "\<exists>d. map_of fs (rev ?l ! i) = Some (File (Decodable d)) \<and>
            map_of fs' (join ?out (IMAGE_FILENAME_FORMAT (image_count w + i))) =
              Some (File (Decodable d))" if i: "i < length ?l" for i
  proof -
    obtain d where d: "map_of fs1 (rev ?l ! i) = Some (File (Decodable d))"
      "map_of fs' (join ?out (IMAGE_FILENAME_FORMAT (image_count w + i))) =
         Some (File (Decodable d))" using L i by blast
    have "rev ?l ! i \<in> set ?l" using i by (metis length_rev nth_mem set_rev)
    then have "map_of fs1 (rev ?l ! i) = map_of fs (rev ?l ! i)"
      using init_map_of[OF assms(3)] webp_files_exist[OF assms(2)] by blast
    then have "map_of fs (rev ?l ! i) = Some (File (Decodable d))" using d(1) by simp
    then show ?thesis using d(2) by blast
  qed
  have b: "\<forall>p. (\<forall>i<length ?l. p \<noteq> join ?out (IMAGE_FILENAME_FORMAT (image_count w + i))) \<longrightarrow>
              map_of fs' p = (if arg_destructive args \<and> p \<in> set ?l then None else map_of fs1 p)"
    using L by blast
  have c: "card ((\<lambda>i. join ?out (IMAGE_FILENAME_FORMAT (image_count w + i))) ` {..<length ?l}) =
     length ?l" by (rule card_slots)
  have d: "card ((\<lambda>i. join ?out (IMAGE_FILENAME_FORMAT (image_count w + i))) ` {..<length ?l}) =
     card (set ?l)" if "distinct (map fst fs)"
    using c webp_files_distinct[OF assms(2) that] by (simp add: distinct_card)
  have e: "main frames [(''src'', Dir), (''src/a.webp'', File (Decodable 1)),
               (''src/b.webp'', File (Decodable 2)), (''src/readme.txt'', File Undecodable),
               (''out'', Dir)]
           \<lparr>arg_source_path = ''src'', arg_output_path = ''out'',
            arg_recursive = False, arg_destructive = False\<rparr> =
           (None,
             [(''src'', Dir), (''src/a.webp'', File (Decodable 1)),
              (''src/b.webp'', File (Decodable 2)), (''src/readme.txt'', File Undecodable),
              (''out'', Dir), (''out/001.png'', File (Decodable 2)),
              (''out/002.png'', File (Decodable 1))])" by code_simp
  have f: "scandir
             [(''src'', Dir), (''src/a.webp'', File (Decodable 1)),
              (''src/b.webp'', File (Decodable 2)), (''src/readme.txt'', File Undecodable),
              (''out'', Dir), (''out/001.png'', File (Decodable 2)),
              (''out/002.png'', File (Decodable 1))] ''out'' =
           Inr [\<lparr>name = ''001.png'', path = ''out/001.png''\<rparr>,
                \<lparr>name = ''002.png'', path = ''out/002.png''\<rparr>]" by code_simp
  show ?thesis using a b c d e f by (intro conjI allI impI) blast+
qed

theorem C9_each_input_written_once_witness:
  "main 1000 [(''src'', Dir), (''src/a.webp'', File (Decodable 1)),
         (''src/b.webp'', File (Decodable 2)), (''src/readme.txt'', File Undecodable),
         (''out'', Dir)]
     \<lparr>arg_source_path = ''src'', arg_output_path = ''out'',
      arg_recursive = False, arg_destructive = False\<rparr> =
     (None,
       [(''src'', Dir), (''src/a.webp'', File (Decodable 1)),
        (''src/b.webp'', File (Decodable 2)), (''src/readme.txt'', File Undecodable),
        (''out'', Dir), (''out/001.png'', File (Decodable 2)),
        (''out/002.png'', File (Decodable 1))]) \<and>
   webp_files [(''src'', Dir), (''src/a.webp'', File (Decodable 1)),
         (''src/b.webp'', File (Decodable 2)), (''src/readme.txt'', File Undecodable),
         (''out'', Dir)]
     [\<lparr>name = ''a.webp'', path = ''src/a.webp''\<rparr>, \<lparr>name = ''b.webp'', path = ''src/b.webp''\<rparr>,
      \<lparr>name = ''readme.txt'', path = ''src/readme.txt''\<rparr>] = [''src/a.webp'', ''src/b.webp''] \<and>
   ImageWriter_init [(''src'', Dir), (''src/a.webp'', File (Decodable 1)),
         (''src/b.webp'', File (Decodable 2)), (''src/readme.txt'', File Undecodable),
         (''out'', Dir)] ''out'' =
     Inr (\<lparr>output_path = ''out'', image_count = 1\<rparr>,
          [(''src'', Dir), (''src/a.webp'', File (Decodable 1)),
           (''src/b.webp'', File (Decodable 2)), (''src/readme.txt'', File Undecodable),
           (''out'', Dir)], 0) \<and>
   card ((\<lambda>i. join ''out'' (IMAGE_FILENAME_FORMAT (1 + i))) ` {..<2}) = 2 \<and>
   card ((\<lambda>i. join ''out'' (IMAGE_FILENAME_FORMAT (1 + i))) ` {..<2}) =
     card (set [''src/a.webp'', ''src/b.webp''])"
proof -
  let ?fs = "[(''src'', Dir), (''src/a.webp'', File (Decodable 1)),
         (''src/b.webp'', File (Decodable 2)), (''src/readme.txt'', File Undecodable),
         (''out'', Dir)]"
  let ?args = "\<lparr>arg_source_path = ''src'', arg_output_path = ''out'',
      arg_recursive = False, arg_destructive = False\<rparr>"
  let ?fs' = "[(''src'', Dir), (''src/a.webp'', File (Decodable 1)),
        (''src/b.webp'', File (Decodable 2)), (''src/readme.txt'', File Undecodable),
        (''out'', Dir), (''out/001.png'', File (Decodable 2)),
        (''out/002.png'', File (Decodable 1))]"
  let ?es = "[\<lparr>name = ''a.webp'', path = ''src/a.webp''\<rparr>,
      \<lparr>name = ''b.webp'', path = ''src/b.webp''\<rparr>,
      \<lparr>name = ''readme.txt'', path = ''src/readme.txt''\<rparr>]"
  let ?w = "\<lparr>output_path = ''out'', image_count = 1\<rparr>"
  have m: "main 1000 ?fs ?args = (None, ?fs')" by code_simp
  have sc: "scandir ?fs (arg_source_path ?args) = Inr ?es" by code_simp
  have i: "ImageWriter_init ?fs (arg_output_path ?args) = Inr (?w, ?fs, 0)" by code_simp
  have wf: "webp_files ?fs ?es = [''src/a.webp'', ''src/b.webp'']" by code_simp
  have dk: "distinct (map fst ?fs)" by simp
  note T = C9_each_input_written_once[OF m sc i]
  from T have t1: "card ((\<lambda>k. join (arg_output_path ?args)
                     (IMAGE_FILENAME_FORMAT (image_count ?w + k))) `
                 {..<length (webp_files ?fs ?es)}) = length (webp_files ?fs ?es)" by blast
  have c: "card ((\<lambda>i. join ''out'' (IMAGE_FILENAME_FORMAT (1 + i))) ` {..<2}) = 2"
    using t1[unfolded wf] by (simp add: numeral_2_eq_2)
  from T dk have t2: "card ((\<lambda>k. join (arg_output_path ?args)
                     (IMAGE_FILENAME_FORMAT (image_count ?w + k))) `
                 {..<length (webp_files ?fs ?es)}) = card (set (webp_files ?fs ?es))" by blast
  have d: "card ((\<lambda>i. join ''out'' (IMAGE_FILENAME_FORMAT (1 + i))) ` {..<2}) =
          card (set [''src/a.webp'', ''src/b.webp''])"
    using t2[unfolded wf] by (simp add: numeral_2_eq_2)
  have i': "ImageWriter_init ?fs ''out'' = Inr (?w, ?fs, 0)" using i by simp
  from m wf i' c d show ?thesis by blast
qed

end
